theory Spec2Isabelle
  imports Main "HOL-Library.Word"
begin

section \<open>Python values and failures\<close>

text \<open>
  The exceptions that \<^verbatim>\<open>segmentation_dataset.py\<close> can raise, as values. The source
  defines no exception class of its own: what it raises are Python's and numpy's own
  exceptions, such as the IndexError of a boolean index of the wrong shape, the KeyError
  of a dictionary lookup and the ValueError of the argmax of an empty sequence.
  \<open>CacheNotReadyError\<close> is the class that the specification names for an access before
  the build. No statement of the source raises it; it is a value here only so that what
  the specification says about it can be stated and compared with what the code raises.
  \<open>External\<close> carries a failure of an injected collaborator (image decoder,
  annotation loader, stain normaliser, transform).
\<close>

datatype error =
    IndexError
  | KeyError
  | ValueError
  | AttributeError
  | RuntimeError
  | CacheNotReadyError
  | External string

type_synonym u32 = "32 word"

text \<open>
  A two-dimensional numpy array: its shape and its elements in row-major order. The
  element at row \<open>r\<close> and column \<open>c\<close> is \<open>flat a ! (r * ncols a + c)\<close>.
\<close>

datatype 'a ndarray = NDArray (nrows: nat) (ncols: nat) (flat: "'a list")

definition shape :: "'a ndarray \<Rightarrow> nat \<times> nat" where
  "shape a = (nrows a, ncols a)"

text \<open>
  The invariant of a numpy array: as many elements as the shape says.
\<close>

definition wf_array :: "'a ndarray \<Rightarrow> bool" where
  "wf_array a = (length (flat a) = nrows a * ncols a)"

text \<open>
  \<^verbatim>\<open>a.astype(np.uint32)\<close> on an array of a fixed-width integer dtype, which is what
  numpy saves for a label map: every element modulo \<open>2 ^ 32\<close>. An array of dtype
  object holding Python integers is outside this model (there the cast raises
  OverflowError on a value out of range).
\<close>

definition astype_uint32 :: "int ndarray \<Rightarrow> u32 ndarray" where
  "astype_uint32 a = NDArray (nrows a) (ncols a) (map word_of_int (flat a))"

text \<open>\<^verbatim>\<open>np.unique(a)\<close>: the distinct elements of the flattened array, ascending.\<close>

definition np_unique :: "'a::linorder list \<Rightarrow> 'a list" where
  "np_unique xs = sort (remdups xs)"

text \<open>\<^verbatim>\<open>np.unique(a, return_counts=True)\<close>: the same, with the multiplicity of each.\<close>

definition np_unique_counts :: "'a::linorder list \<Rightarrow> 'a list \<times> nat list" where
  "np_unique_counts xs = (let u = np_unique xs in (u, map (count_list xs) u))"

fun first_index :: "'a \<Rightarrow> 'a list \<Rightarrow> nat" where
  "first_index v [] = 0"
| "first_index v (x # xs) = (if x = v then 0 else Suc (first_index v xs))"

text \<open>
  \<^verbatim>\<open>np.argmax(counts)\<close>: the first index of the maximum; on an empty array numpy
  raises ValueError.
\<close>

definition np_argmax :: "nat list \<Rightarrow> error + nat" where
  "np_argmax cs =
     (case cs of
        [] \<Rightarrow> Inl ValueError
      | c # cs' \<Rightarrow> Inr (first_index (fold max cs' c) cs))"

text \<open>
  \<^verbatim>\<open>a[mask]\<close> with a boolean mask: numpy raises IndexError unless the mask has the
  shape of the array, and otherwise returns the selected elements in row-major order.
\<close>

definition bool_index :: "'a ndarray \<Rightarrow> bool ndarray \<Rightarrow> error + 'a list" where
  "bool_index a m =
     (if shape m \<noteq> shape a then Inl IndexError
      else Inr (map fst (filter snd (zip (flat a) (flat m)))))"

definition eq_mask :: "'a ndarray \<Rightarrow> 'a \<Rightarrow> bool ndarray" where
  "eq_mask a v = NDArray (nrows a) (ncols a) (map (\<lambda>x. x = v) (flat a))"

section \<open>Centroid\<close>

text \<open>
  \<^verbatim>\<open>center_of_mass(inst_mask)\<close> of a 0/1 mask is, per axis, the sum of the coordinates
  of the mask pixels divided by their number. The source computes the quotient in double
  precision and rounds it with \<^verbatim>\<open>np.round\<close> (half to even); the model keeps the
  quotient exact, as numerator and denominator, and rounds that. The two agree as long as
  the coordinate sums stay far below \<open>2 ^ 52\<close>.
\<close>

definition mask_positions :: "bool ndarray \<Rightarrow> nat list" where
  "mask_positions m = filter (\<lambda>i. flat m ! i) [0..<length (flat m)]"

definition center_of_mass :: "bool ndarray \<Rightarrow> (nat \<times> nat) \<times> (nat \<times> nat)" where
  "center_of_mass m =
     (let ps = mask_positions m; n = length ps
      in ((sum_list (map (\<lambda>i. i div ncols m) ps), n),
          (sum_list (map (\<lambda>i. i mod ncols m) ps), n)))"

definition np_round :: "nat \<times> nat \<Rightarrow> int" where
  "np_round q =
     (let s = fst q; n = snd q; d = s div n; r = s mod n
      in if 2 * r < n then int d
         else if n < 2 * r then int d + 1
         else if even d then int d else int d + 1)"

section \<open>Annotation extraction\<close>

text \<open>A cell record is the tuple \<open>(x, y, type_id)\<close> of Python integers.\<close>

type_synonym cell_record = "int \<times> int \<times> int"

text \<open>
  Lines 114 and 115: the type-map values under the instance's mask, without zeros.
\<close>

definition overlap_types :: "u32 ndarray \<Rightarrow> u32 ndarray \<Rightarrow> u32 \<Rightarrow> error + u32 list" where
  "overlap_types inst_map type_map inst_id =
     (case bool_index type_map (eq_mask inst_map inst_id) of
        Inl e \<Rightarrow> Inl e
      | Inr cell_type \<Rightarrow> Inr (filter (\<lambda>t. t \<noteq> 0) cell_type))"

text \<open>Lines 116 and 121: \<^verbatim>\<open>type_ids[np.argmax(counts)]\<close>.\<close>

definition majority_type :: "u32 list \<Rightarrow> error + u32" where
  "majority_type cell_type =
     (let (type_ids, counts) = np_unique_counts cell_type
      in case np_argmax counts of
           Inl e \<Rightarrow> Inl e
         | Inr i \<Rightarrow> Inr (type_ids ! i))"

text \<open>The body of the loop over the instance labels (lines 110 to 123).\<close>

definition cell_annot_of :: "u32 ndarray \<Rightarrow> u32 ndarray \<Rightarrow> u32 \<Rightarrow> error + cell_record" where
  "cell_annot_of inst_map type_map inst_id =
     (let (y, x) = center_of_mass (eq_mask inst_map inst_id)
      in case overlap_types inst_map type_map inst_id of
           Inl e \<Rightarrow> Inl e
         | Inr cell_type \<Rightarrow>
             (case majority_type cell_type of
                Inl e \<Rightarrow> Inl e
              | Inr t \<Rightarrow> Inr (np_round x, np_round y, uint t)))"

text \<open>
  The loop of lines 106 to 123 over \<^verbatim>\<open>np.unique(inst_map)\<close>: label 0 is skipped, each
  other label appends one record, and the first exception ends the loop.
\<close>

fun extract_loop ::
  "u32 ndarray \<Rightarrow> u32 ndarray \<Rightarrow> u32 list \<Rightarrow> cell_record list \<Rightarrow> error + cell_record list"
where
  "extract_loop inst_map type_map [] cell_annot = Inr cell_annot"
| "extract_loop inst_map type_map (inst_id # rest) cell_annot =
     (if inst_id = 0 then extract_loop inst_map type_map rest cell_annot
      else case cell_annot_of inst_map type_map inst_id of
             Inl e \<Rightarrow> Inl e
           | Inr r \<Rightarrow> extract_loop inst_map type_map rest (cell_annot @ [r]))"

definition extract_cells :: "u32 ndarray \<Rightarrow> u32 ndarray \<Rightarrow> error + cell_record list" where
  "extract_cells inst_map type_map = extract_loop inst_map type_map (np_unique (flat inst_map)) []"

text \<open>The labels that get a record: the distinct nonzero labels, ascending.\<close>

definition instance_labels :: "u32 ndarray \<Rightarrow> u32 list" where
  "instance_labels inst_map = filter (\<lambda>l. l \<noteq> 0) (np_unique (flat inst_map))"

section \<open>The dataset object\<close>

text \<open>
  A path in the image or the label directory, already split as \<^verbatim>\<open>pathlib\<close> splits
  it: \<^verbatim>\<open>p.stem\<close> and \<^verbatim>\<open>p.suffix\<close>.
\<close>

datatype path = Path (stem: string) (suffix: string)

text \<open>
  The payload of an annotation file, \<^verbatim>\<open>annotation.item()\<close>: a dictionary from field
  names to integer arrays.
\<close>

type_synonym annotation = "string \<rightharpoonup> int ndarray"

text \<open>
  What the constructor and \<^verbatim>\<open>cache_dataset\<close> read from outside: the sorted directory
  listing, the image decoder (\<^verbatim>\<open>Image.open(p).convert("RGB")\<close>) and the annotation
  loader (\<^verbatim>\<open>np.load\<close>). Each may raise.
\<close>

record 'img filesystem =
  listing :: "path list"
  image_open :: "path \<Rightarrow> error + 'img"
  np_load :: "path \<Rightarrow> error + annotation"

type_synonym keypoint = "int \<times> int"

text \<open>
  The fields of \<^verbatim>\<open>SegmentationDataset\<close>. The injected transform takes the image and
  the keypoints and returns both transformed (or raises); \<open>None\<close> is a falsy
  \<^verbatim>\<open>self.transforms\<close>. The stain normaliser is the composite of lines 150 to 153.
\<close>

record 'img dataset =
  images :: "path list"
  annotations :: "path list"
  cache_images :: "string \<rightharpoonup> 'img"
  cache_annotations :: "string \<rightharpoonup> cell_record list"
  transforms :: "('img \<Rightarrow> keypoint list \<Rightarrow> error + ('img \<times> keypoint list)) option"
  normalize_stains :: bool
  normalizer :: "'img \<Rightarrow> error + 'img"

text \<open>
  The constructor (lines 59 to 89): the images of the listing with an accepted suffix,
  restricted to the file list when one is given, the annotation path of each, and two
  empty caches.
\<close>

definition init ::
  "'img filesystem \<Rightarrow> string list option \<Rightarrow>
   ('img \<Rightarrow> keypoint list \<Rightarrow> error + ('img \<times> keypoint list)) option \<Rightarrow>
   bool \<Rightarrow> ('img \<Rightarrow> error + 'img) \<Rightarrow> 'img dataset"
where
  "init fs filelist tf ns norm =
     (let imgs0 = filter (\<lambda>f. suffix f \<in> set [''.png'', ''.jpg'', ''.jpeg'']) (listing fs);
          imgs = (case filelist of
                    None \<Rightarrow> imgs0
                  | Some selected_files \<Rightarrow> filter (\<lambda>f. stem f \<in> set selected_files) imgs0)
      in \<lparr> images = imgs,
           annotations = map (\<lambda>p. Path (stem p) ''.npy'') imgs,
           cache_images = Map.empty,
           cache_annotations = Map.empty,
           transforms = tf,
           normalize_stains = ns,
           normalizer = norm \<rparr>)"

section \<open>Building the cache\<close>

text \<open>
  Lines 100 to 124 for one annotation file: load it, read both maps (a missing field is
  \<^verbatim>\<open>None\<close>, and \<^verbatim>\<open>None.astype\<close> raises AttributeError), cast them and extract.
\<close>

definition load_cell_annot :: "'img filesystem \<Rightarrow> path \<Rightarrow> error + cell_record list" where
  "load_cell_annot fs annot_path =
     (case np_load fs annot_path of
        Inl e \<Rightarrow> Inl e
      | Inr annotation \<Rightarrow>
          (case annotation ''inst_map'' of
             None \<Rightarrow> Inl AttributeError
           | Some inst_map \<Rightarrow>
               (case annotation ''type_map'' of
                  None \<Rightarrow> Inl AttributeError
                | Some type_map \<Rightarrow>
                    extract_cells (astype_uint32 inst_map) (astype_uint32 type_map))))"

text \<open>
  The loop of \<^verbatim>\<open>cache_dataset\<close> over \<^verbatim>\<open>zip(self.images, self.annotations)\<close>. The result
  is the exception that ended the loop, if any, and the dataset as mutated up to there:
  the image of a sample is stored before its annotation is loaded.
\<close>

fun cache_loop ::
  "'img filesystem \<Rightarrow> (path \<times> path) list \<Rightarrow> 'img dataset \<Rightarrow> error option \<times> 'img dataset"
where
  "cache_loop fs [] ds = (None, ds)"
| "cache_loop fs ((img_path, annot_path) # rest) ds =
     (case image_open fs img_path of
        Inl e \<Rightarrow> (Some e, ds)
      | Inr img \<Rightarrow>
          (let ds1 = ds\<lparr>cache_images := (cache_images ds)(stem img_path \<mapsto> img)\<rparr>
           in case load_cell_annot fs annot_path of
                Inl e \<Rightarrow> (Some e, ds1)
              | Inr cell_annot \<Rightarrow>
                  cache_loop fs rest
                    (ds1\<lparr>cache_annotations :=
                           (cache_annotations ds1)(stem img_path \<mapsto> cell_annot)\<rparr>)))"

definition cache_dataset :: "'img filesystem \<Rightarrow> 'img dataset \<Rightarrow> error option \<times> 'img dataset" where
  "cache_dataset fs ds = cache_loop fs (zip (images ds) (annotations ds)) ds"

section \<open>Reading a sample\<close>

text \<open>Python list indexing with an integer: negative indices count from the end.\<close>

definition py_index :: "'a list \<Rightarrow> int \<Rightarrow> error + 'a" where
  "py_index xs i =
     (if 0 \<le> i \<and> i < int (length xs) then Inr (xs ! nat i)
      else if - int (length xs) \<le> i \<and> i < 0 then Inr (xs ! nat (i + int (length xs)))
      else Inl IndexError)"

text \<open>
  Line 161, \<^verbatim>\<open>[types[idx] for idx, _ in enumerate(detections)]\<close>: the indices are the
  positions in the transformed keypoint list, and the first one past the end of
  \<^verbatim>\<open>types\<close> raises IndexError.
\<close>

fun gather :: "'a list \<Rightarrow> nat list \<Rightarrow> error + 'a list" where
  "gather xs [] = Inr []"
| "gather xs (idx # rest) =
     (case py_index xs (int idx) of
        Inl e \<Rightarrow> Inl e
      | Inr x \<Rightarrow> (case gather xs rest of Inl e \<Rightarrow> Inl e | Inr ys \<Rightarrow> Inr (x # ys)))"

definition resync_types :: "int list \<Rightarrow> 'k list \<Rightarrow> error + int list" where
  "resync_types types detections = gather types [0..<length detections]"

definition getitem ::
  "'img dataset \<Rightarrow> int \<Rightarrow> error + ('img \<times> keypoint list \<times> int list \<times> string)"
where
  "getitem ds index =
     (case py_index (images ds) index of
        Inl e \<Rightarrow> Inl e
      | Inr img_path \<Rightarrow>
          (let img_name = stem img_path
           in case cache_images ds img_name of
                None \<Rightarrow> Inl KeyError
              | Some img \<Rightarrow>
                  (case cache_annotations ds img_name of
                     None \<Rightarrow> Inl KeyError
                   | Some cell_annot \<Rightarrow>
                       (let detections = map (\<lambda>(x, y, t). (x, y)) cell_annot;
                            types = map (\<lambda>(x, y, t). t - 1) cell_annot
                        in case (if normalize_stains ds then normalizer ds img else Inr img) of
                             Inl e \<Rightarrow> Inl e
                           | Inr img1 \<Rightarrow>
                               (case transforms ds of
                                  None \<Rightarrow> Inr (img1, detections, types, img_name)
                                | Some tf \<Rightarrow>
                                    (case tf img1 detections of
                                       Inl e \<Rightarrow> Inl e
                                     | Inr (img2, detections2) \<Rightarrow>
                                         (case resync_types types detections2 of
                                            Inl e \<Rightarrow> Inl e
                                          | Inr types2 \<Rightarrow>
                                              Inr (img2, detections2, types2, img_name))))))))"

section \<open>Collating a batch\<close>

text \<open>A tensor: its shape and its elements in row-major order.\<close>

datatype 'a tensor = Tensor (tshape: "nat list") (tdata: "'a list")

text \<open>
  \<^verbatim>\<open>torch.stack\<close>: a new leading axis. It raises RuntimeError on an empty list and on
  tensors of different shapes.
\<close>

definition torch_stack :: "'a tensor list \<Rightarrow> error + 'a tensor" where
  "torch_stack ts =
     (case ts of
        [] \<Rightarrow> Inl RuntimeError
      | t # rest \<Rightarrow>
          if list_all (\<lambda>u. tshape u = tshape t) rest
          then Inr (Tensor (length ts # tshape t) (concat (map tdata ts)))
          else Inl RuntimeError)"

text \<open>
  \<^verbatim>\<open>collate_batch\<close>. Unpacking \<^verbatim>\<open>zip(*batch)\<close> into four names raises ValueError when
  the batch is empty, since the zip then yields nothing.
\<close>

definition collate_batch ::
  "('a tensor \<times> 'd \<times> 't \<times> string) list \<Rightarrow>
   error + ('a tensor \<times> 'd list \<times> 't list \<times> string list)"
where
  "collate_batch batch =
     (case batch of
        [] \<Rightarrow> Inl ValueError
      | _ # _ \<Rightarrow>
          (let imgs = map (\<lambda>(i, d, t, n). i) batch;
               detections_list = map (\<lambda>(i, d, t, n). d) batch;
               types_list = map (\<lambda>(i, d, t, n). t) batch;
               names = map (\<lambda>(i, d, t, n). n) batch
           in case torch_stack imgs of
                Inl e \<Rightarrow> Inl e
              | Inr stacked \<Rightarrow> Inr (stacked, detections_list, types_list, names)))"

section \<open>Facts about the numpy operations\<close>

lemma np_unique_set [simp]: "set (np_unique xs) = set xs"
  by (simp add: np_unique_def)

lemma np_unique_sorted [simp]: "sorted (np_unique xs)"
  by (simp add: np_unique_def)

lemma np_unique_distinct [simp]: "distinct (np_unique xs)"
  by (simp add: np_unique_def)

lemma np_unique_empty [simp]: "np_unique xs = [] \<longleftrightarrow> xs = []"
  by (metis np_unique_set set_empty)

lemma first_index_mem: "v \<in> set xs \<Longrightarrow> first_index v xs < length xs \<and> xs ! first_index v xs = v"
  by (induction xs) auto

lemma first_index_least: "j < first_index v xs \<Longrightarrow> xs ! j \<noteq> v"
proof (induction xs arbitrary: j)
  case Nil
  then show ?case by simp
next
  case (Cons x xs)
  then show ?case by (cases j) (auto split: if_splits)
qed

lemma fold_max_eq: "fold max cs (c::nat) = Max (set (c # cs))"
  by (rule Max.set_eq_fold [symmetric])

lemma np_argmax_spec:
  assumes "cs \<noteq> []"
  shows "\<exists>i. np_argmax cs = Inr i \<and> i < length cs \<and> (\<forall>j < length cs. cs ! j \<le> cs ! i)
           \<and> (\<forall>j < i. cs ! j \<noteq> cs ! i)"
proof -
  from assms obtain c cs' where cs: "cs = c # cs'" by (cases cs) auto
  define m where "m = Max (set cs)"
  have m_in: "m \<in> set cs" unfolding m_def using assms by (intro Max_in) auto
  have m_ge: "\<And>x. x \<in> set cs \<Longrightarrow> x \<le> m" unfolding m_def by (intro Max_ge) auto
  define i where "i = first_index m cs"
  have arg: "np_argmax cs = Inr i"
    unfolding np_argmax_def i_def m_def cs by (simp only: list.case fold_max_eq)
  have i_lt: "i < length cs" and at_i: "cs ! i = m"
    using first_index_mem [OF m_in] by (simp_all add: i_def)
  have "\<forall>j < length cs. cs ! j \<le> cs ! i"
    using m_ge at_i by simp
  moreover have "\<forall>j < i. cs ! j \<noteq> cs ! i"
    using first_index_least [of _ m cs] at_i by (simp add: i_def)
  ultimately show ?thesis using arg i_lt by blast
qed

lemma np_argmax_Nil [simp]: "np_argmax [] = Inl ValueError"
  by (simp add: np_argmax_def)

lemma majority_type_Nil [simp]: "majority_type [] = Inl ValueError"
  by (simp add: majority_type_def np_unique_counts_def np_unique_def)

lemma majority_type_spec:
  assumes "ts \<noteq> []"
  shows "\<exists>t. majority_type ts = Inr t \<and> t \<in> set ts
           \<and> (\<forall>u \<in> set ts. count_list ts u \<le> count_list ts t)
           \<and> (\<forall>u \<in> set ts. count_list ts u = count_list ts t \<longrightarrow> t \<le> u)"
proof -
  define us where "us = np_unique ts"
  define cs where "cs = map (count_list ts) us"
  have us_ne: "us \<noteq> []" using assms by (simp add: us_def)
  then have "cs \<noteq> []" by (simp add: cs_def)
  from np_argmax_spec [OF this] obtain i where
    arg: "np_argmax cs = Inr i" and i_lt: "i < length cs"
    and mx: "\<forall>j < length cs. cs ! j \<le> cs ! i" and fst: "\<forall>j < i. cs ! j \<noteq> cs ! i"
    by blast
  have len: "length cs = length us" by (simp add: cs_def)
  have nth_cs: "\<And>j. j < length us \<Longrightarrow> cs ! j = count_list ts (us ! j)"
    by (simp add: cs_def)
  define t where "t = us ! i"
  have maj: "majority_type ts = Inr t"
    using arg by (simp add: majority_type_def np_unique_counts_def Let_def us_def cs_def t_def)
  have t_in: "t \<in> set ts"
    using i_lt len by (metis np_unique_set nth_mem t_def us_def)
  have ct: "count_list ts t = cs ! i" using i_lt len nth_cs by (simp add: t_def)
  have idx: "\<exists>j < length us. us ! j = u" if "u \<in> set ts" for u
    using that by (metis in_set_conv_nth np_unique_set us_def)
  have ge: "count_list ts u \<le> count_list ts t" if "u \<in> set ts" for u
  proof -
    from idx [OF that] obtain j where "j < length us" "us ! j = u" by blast
    then show ?thesis using mx len nth_cs ct by metis
  qed
  have tie: "t \<le> u" if "u \<in> set ts" "count_list ts u = count_list ts t" for u
  proof -
    from idx [OF that(1)] obtain j where j: "j < length us" "us ! j = u" by blast
    then have "cs ! j = cs ! i" using that(2) ct nth_cs by simp
    then have "\<not> j < i" using fst by blast
    then have "i \<le> j" by simp
    then show ?thesis
      using j sorted_nth_mono [of us i j] by (simp add: t_def us_def)
  qed
  show ?thesis using maj t_in ge tie by blast
qed

section \<open>Facts about the extraction loop\<close>

lemma overlap_types_mismatch:
  "shape type_map \<noteq> shape inst_map \<Longrightarrow> overlap_types inst_map type_map l = Inl IndexError"
  by (auto simp: overlap_types_def bool_index_def eq_mask_def shape_def)

lemma overlap_types_match:
  "shape type_map = shape inst_map \<Longrightarrow> \<exists>ts. overlap_types inst_map type_map l = Inr ts \<and> 0 \<notin> set ts"
  by (auto simp: overlap_types_def bool_index_def eq_mask_def shape_def)

lemma cell_annot_of_Inl:
  "overlap_types inst_map type_map l = Inl e \<Longrightarrow> cell_annot_of inst_map type_map l = Inl e"
  by (simp add: cell_annot_of_def split: prod.splits)

lemma cell_annot_of_empty:
  "overlap_types inst_map type_map l = Inr [] \<Longrightarrow> cell_annot_of inst_map type_map l = Inl ValueError"
  by (simp add: cell_annot_of_def split: prod.splits)

lemma cell_annot_of_vote:
  assumes "overlap_types inst_map type_map l = Inr ts" and "ts \<noteq> []"
  shows "\<exists>x y t. cell_annot_of inst_map type_map l = Inr (x, y, uint t) \<and> majority_type ts = Inr t"
proof -
  from majority_type_spec [OF assms(2)] obtain t where "majority_type ts = Inr t" by blast
  then show ?thesis using assms(1) by (simp add: cell_annot_of_def split: prod.splits)
qed

lemma extract_loop_Inr_D:
  "extract_loop im tm ls acc = Inr rs \<Longrightarrow>
     \<exists>rs'. rs = acc @ rs' \<and> map Inr rs' = map (cell_annot_of im tm) (filter (\<lambda>l. l \<noteq> 0) ls)"
proof (induction ls arbitrary: acc)
  case Nil
  then show ?case by simp
next
  case (Cons l ls)
  show ?case
  proof (cases "l = 0")
    case True
    with Cons.prems have "extract_loop im tm ls acc = Inr rs" by simp
    from Cons.IH [OF this] show ?thesis using True by simp
  next
    case False
    show ?thesis
    proof (cases "cell_annot_of im tm l")
      case (Inl e)
      with Cons.prems False show ?thesis by simp
    next
      case (Inr r)
      with Cons.prems False have "extract_loop im tm ls (acc @ [r]) = Inr rs" by simp
      from Cons.IH [OF this] obtain rs' where
        rs: "rs = (acc @ [r]) @ rs'"
        and m: "map Inr rs' = map (cell_annot_of im tm) (filter (\<lambda>l. l \<noteq> 0) ls)"
        by blast
      have "rs = acc @ (r # rs')" using rs by simp
      moreover have "map Inr (r # rs') = map (cell_annot_of im tm) (filter (\<lambda>l. l \<noteq> 0) (l # ls))"
        using m Inr False by simp
      ultimately show ?thesis by blast
    qed
  qed
qed

lemma extract_loop_Inr_I:
  "map Inr rs' = map (cell_annot_of im tm) (filter (\<lambda>l. l \<noteq> 0) ls) \<Longrightarrow>
     extract_loop im tm ls acc = Inr (acc @ rs')"
proof (induction ls arbitrary: acc rs')
  case Nil
  then show ?case by simp
next
  case (Cons l ls)
  show ?case
  proof (cases "l = 0")
    case True
    with Cons.prems have "map Inr rs' = map (cell_annot_of im tm) (filter (\<lambda>l. l \<noteq> 0) ls)"
      by simp
    from Cons.IH [OF this] show ?thesis using True by simp
  next
    case False
    with Cons.prems have
      m: "map Inr rs' = cell_annot_of im tm l # map (cell_annot_of im tm) (filter (\<lambda>l. l \<noteq> 0) ls)"
      by simp
    then obtain r rs'' where rs': "rs' = r # rs''" by (cases rs') auto
    with m have hd: "cell_annot_of im tm l = Inr r"
      and tl: "map Inr rs'' = map (cell_annot_of im tm) (filter (\<lambda>l. l \<noteq> 0) ls)"
      by simp_all
    from Cons.IH [OF tl, of "acc @ [r]"] show ?thesis using hd False rs' by simp
  qed
qed

lemma extract_loop_Inr_iff:
  "extract_loop im tm ls acc = Inr rs \<longleftrightarrow>
     (\<exists>rs'. rs = acc @ rs' \<and> map Inr rs' = map (cell_annot_of im tm) (filter (\<lambda>l. l \<noteq> 0) ls))"
  using extract_loop_Inr_D extract_loop_Inr_I by blast

lemma extract_loop_all_fail:
  assumes "\<And>l. l \<in> set ls \<Longrightarrow> l \<noteq> 0 \<Longrightarrow> cell_annot_of im tm l = Inl e"
  shows "extract_loop im tm ls acc = (if filter (\<lambda>l. l \<noteq> 0) ls = [] then Inr acc else Inl e)"
  using assms by (induction ls arbitrary: acc) auto

lemma extract_loop_some_fail:
  assumes "\<And>l. l \<in> set ls \<Longrightarrow> l \<noteq> 0 \<Longrightarrow> (\<exists>r. cell_annot_of im tm l = Inr r) \<or> cell_annot_of im tm l = Inl e"
    and "\<exists>l \<in> set ls. l \<noteq> 0 \<and> cell_annot_of im tm l = Inl e"
  shows "extract_loop im tm ls acc = Inl e"
  using assms
proof (induction ls arbitrary: acc)
  case Nil
  then show ?case by simp
next
  case (Cons l ls)
  show ?case
  proof (cases "l = 0")
    case True
    then show ?thesis using Cons by auto
  next
    case False
    show ?thesis
    proof (cases "cell_annot_of im tm l")
      case (Inl e')
      then have "e' = e" using Cons.prems(1) [of l] False by auto
      then show ?thesis using Inl False by simp
    next
      case (Inr r)
      then have "\<exists>l \<in> set ls. l \<noteq> 0 \<and> cell_annot_of im tm l = Inl e"
        using Cons.prems(2) by auto
      then have "extract_loop im tm ls (acc @ [r]) = Inl e"
        using Cons.IH [of "acc @ [r]"] Cons.prems(1) by auto
      then show ?thesis using Inr False by simp
    qed
  qed
qed

lemma instance_labels_set: "set (instance_labels im) = set (flat im) - {0}"
  by (auto simp: instance_labels_def)

lemma instance_labels_sorted: "sorted (instance_labels im)"
  by (simp add: instance_labels_def sorted_wrt_filter)

lemma instance_labels_distinct: "distinct (instance_labels im)"
  by (simp add: instance_labels_def)

lemma instance_labels_length: "length (instance_labels im) = card (set (flat im) - {0})"
  by (metis distinct_card instance_labels_distinct instance_labels_set)

lemma extract_cells_Inr_iff:
  "extract_cells im tm = Inr rs \<longleftrightarrow> map Inr rs = map (cell_annot_of im tm) (instance_labels im)"
  by (simp add: extract_cells_def instance_labels_def extract_loop_Inr_iff)

lemma uint_ge_one: "t \<noteq> 0 \<Longrightarrow> 1 \<le> uint (t :: u32)"
  by (metis add_0 linorder_not_less uint_0_iff uint_ge_0 zless_imp_add1_zle order_le_less)

lemma cell_annot_of_type_pos:
  assumes "cell_annot_of im tm l = Inr r"
  shows "1 \<le> snd (snd r)"
proof -
  from assms obtain ts where ov: "overlap_types im tm l = Inr ts"
    by (cases "overlap_types im tm l") (auto simp: cell_annot_of_Inl)
  have nz: "0 \<notin> set ts"
    using ov by (auto simp: overlap_types_def split: sum.splits)
  have "ts \<noteq> []" using assms ov cell_annot_of_empty by fastforce
  from majority_type_spec [OF this] obtain t where t: "majority_type ts = Inr t" "t \<in> set ts"
    by blast
  from cell_annot_of_vote [OF ov \<open>ts \<noteq> []\<close>] obtain x y t' where
    "cell_annot_of im tm l = Inr (x, y, uint t')" "majority_type ts = Inr t'" by blast
  with t assms have "snd (snd r) = uint t" by auto
  moreover have "t \<noteq> 0" using t nz by metis
  ultimately show ?thesis using uint_ge_one by simp
qed

lemma extract_cells_types_pos:
  assumes "extract_cells im tm = Inr recs" and "r \<in> set recs"
  shows "1 \<le> snd (snd r)"
proof -
  have m: "map Inr recs = map (cell_annot_of im tm) (instance_labels im)"
    using assms(1) by (simp add: extract_cells_Inr_iff)
  from assms(2) obtain i where i: "i < length recs" "recs ! i = r"
    by (auto simp: in_set_conv_nth)
  have len: "length recs = length (instance_labels im)"
    using m by (metis length_map)
  have "Inr r = cell_annot_of im tm (instance_labels im ! i)"
    using m i len by (metis nth_map)
  then show ?thesis using cell_annot_of_type_pos by metis
qed

lemma instance_labels_layout:
  "set (flat im') = set (flat im) \<Longrightarrow> instance_labels im' = instance_labels im"
  by (metis instance_labels_def np_unique_def sorted_list_of_set_sort_remdups)

lemma extract_cells_mismatch:
  assumes "shape type_map \<noteq> shape inst_map"
  shows "extract_cells inst_map type_map =
           (if instance_labels inst_map = [] then Inr [] else Inl IndexError)"
proof -
  have "\<And>l. cell_annot_of inst_map type_map l = Inl IndexError"
    using assms by (simp add: cell_annot_of_Inl overlap_types_mismatch)
  then show ?thesis
    unfolding extract_cells_def instance_labels_def
    by (intro extract_loop_all_fail) simp
qed

lemma cell_annot_of_cases:
  assumes "shape type_map = shape inst_map"
  shows "(overlap_types inst_map type_map l = Inr [] \<and> cell_annot_of inst_map type_map l = Inl ValueError)
       \<or> (overlap_types inst_map type_map l \<noteq> Inr [] \<and> (\<exists>r. cell_annot_of inst_map type_map l = Inr r))"
proof -
  from overlap_types_match [OF assms] obtain ts where ov: "overlap_types inst_map type_map l = Inr ts"
    by blast
  show ?thesis
  proof (cases "ts = []")
    case True
    then show ?thesis using ov cell_annot_of_empty by simp
  next
    case False
    from cell_annot_of_vote [OF ov False] show ?thesis using ov False by auto
  qed
qed

lemma extract_cells_all_typed:
  assumes "shape type_map = shape inst_map"
    and "\<forall>l \<in> set (instance_labels inst_map). overlap_types inst_map type_map l \<noteq> Inr []"
  shows "\<exists>recs. extract_cells inst_map type_map = Inr recs
           \<and> map Inr recs = map (cell_annot_of inst_map type_map) (instance_labels inst_map)"
proof -
  define recs where
    "recs = map (\<lambda>l. projr (cell_annot_of inst_map type_map l)) (instance_labels inst_map)"
  have "\<And>l. l \<in> set (instance_labels inst_map) \<Longrightarrow>
          Inr (projr (cell_annot_of inst_map type_map l)) = cell_annot_of inst_map type_map l"
    using cell_annot_of_cases [OF assms(1)] assms(2) by (metis sum.sel(2))
  then have "map Inr recs = map (cell_annot_of inst_map type_map) (instance_labels inst_map)"
    by (simp add: recs_def)
  then show ?thesis using extract_cells_Inr_iff by blast
qed

lemma extract_cells_untyped:
  assumes "shape type_map = shape inst_map"
    and "\<exists>l \<in> set (instance_labels inst_map). overlap_types inst_map type_map l = Inr []"
  shows "extract_cells inst_map type_map = Inl ValueError"
proof -
  have a: "\<And>l. (\<exists>r. cell_annot_of inst_map type_map l = Inr r)
             \<or> cell_annot_of inst_map type_map l = Inl ValueError"
    using cell_annot_of_cases [OF assms(1)] by blast
  have b: "\<exists>l \<in> set (np_unique (flat inst_map)). l \<noteq> 0 \<and> cell_annot_of inst_map type_map l = Inl ValueError"
    using assms(2) cell_annot_of_empty by (auto simp: instance_labels_def)
  show ?thesis
    unfolding extract_cells_def
    by (rule extract_loop_some_fail) (use a b in blast)+
qed

section \<open>The majority vote\<close>

lemma zip_as_map_upt:
  assumes "length xs = length ys"
  shows "zip xs ys = map (\<lambda>i. (xs ! i, ys ! i)) [0..<length ys]"
  using assms by (intro nth_equalityI) auto

lemma bool_index_positions:
  assumes "length xs = length ys"
  shows "map fst (filter snd (zip xs (map P ys)))
           = map (\<lambda>i. xs ! i) (filter (\<lambda>i. P (ys ! i)) [0..<length ys])"
proof -
  have len: "length xs = length (map P ys)" using assms by simp
  have "zip xs (map P ys) = map (\<lambda>i. (xs ! i, map P ys ! i)) [0..<length (map P ys)]"
    by (rule zip_as_map_upt [OF len])
  also have "\<dots> = map (\<lambda>i. (xs ! i, P (ys ! i))) [0..<length ys]"
    by (rule map_cong) auto
  finally have z: "zip xs (map P ys) = map (\<lambda>i. (xs ! i, P (ys ! i))) [0..<length ys]" .
  show ?thesis
    unfolding z by (simp add: filter_map comp_def)
qed

lemma overlap_types_pixels:
  assumes "shape type_map = shape inst_map"
    and "wf_array type_map" and "wf_array inst_map"
  shows "overlap_types inst_map type_map inst_id =
           Inr (map (\<lambda>i. flat type_map ! i)
                  (filter (\<lambda>i. flat inst_map ! i = inst_id \<and> flat type_map ! i \<noteq> 0)
                     [0..<length (flat inst_map)]))"
proof -
  have len: "length (flat type_map) = length (flat inst_map)"
    using assms by (simp add: shape_def wf_array_def)
  have sh: "shape (eq_mask inst_map inst_id) = shape type_map"
    using assms(1) by (simp add: eq_mask_def shape_def)
  have "bool_index type_map (eq_mask inst_map inst_id)
          = Inr (map fst (filter snd (zip (flat type_map)
                   (map (\<lambda>x. x = inst_id) (flat inst_map)))))"
    using sh by (simp add: bool_index_def eq_mask_def)
  also have "\<dots> = Inr (map (\<lambda>i. flat type_map ! i)
                        (filter (\<lambda>i. flat inst_map ! i = inst_id) [0..<length (flat inst_map)]))"
    by (simp only: bool_index_positions [OF len])
  finally have b: "bool_index type_map (eq_mask inst_map inst_id)
          = Inr (map (\<lambda>i. flat type_map ! i)
                  (filter (\<lambda>i. flat inst_map ! i = inst_id) [0..<length (flat inst_map)]))" .
  show ?thesis
    unfolding overlap_types_def b by (simp add: filter_map comp_def)
qed

text \<open>
  C3. The pixels of an instance are the positions where the instance map holds its
  label. Among the nonzero type-map values at those positions, when there is at least
  one, the record of the instance carries the value that occurs most often, and among
  the values that occur that often the smallest one.
\<close>

theorem majority_vote_smallest_on_tie:
  assumes "shape type_map = shape inst_map"
    and "wf_array type_map" and "wf_array inst_map"
    and "ts = map (\<lambda>i. flat type_map ! i)
                (filter (\<lambda>i. flat inst_map ! i = inst_id \<and> flat type_map ! i \<noteq> 0)
                   [0..<length (flat inst_map)])"
    and "ts \<noteq> []"
  shows "\<exists>x y t. cell_annot_of inst_map type_map inst_id = Inr (x, y, uint t)
           \<and> t \<in> set ts
           \<and> (\<forall>u \<in> set ts. count_list ts u \<le> count_list ts t)
           \<and> (\<forall>u \<in> set ts. count_list ts u = count_list ts t \<longrightarrow> t \<le> u)"
proof -
  have ov: "overlap_types inst_map type_map inst_id = Inr ts"
    using overlap_types_pixels [OF assms(1-3)] assms(4) by simp
  from cell_annot_of_vote [OF ov assms(5)] obtain x y t where
    c: "cell_annot_of inst_map type_map inst_id = Inr (x, y, uint t)"
    and m: "majority_type ts = Inr t"
    by blast
  from majority_type_spec [OF assms(5)] m have
    "t \<in> set ts"
    "\<forall>u \<in> set ts. count_list ts u \<le> count_list ts t"
    "\<forall>u \<in> set ts. count_list ts u = count_list ts t \<longrightarrow> t \<le> u"
    by auto
  with c show ?thesis by blast
qed

theorem majority_vote_smallest_on_tie_witness:
  "shape (NDArray 3 4 [7, 4, 4, 7, 7, 4, 0, 7, 7, 4, 4, 7 :: u32])
     = shape (NDArray 3 4 [1, 1, 1, 2, 1, 1, 1, 2, 1, 1, 1, 2 :: u32])
   \<and> map (\<lambda>i. flat (NDArray 3 4 [7, 4, 4, 7, 7, 4, 0, 7, 7, 4, 4, 7 :: u32]) ! i)
         (filter (\<lambda>i. flat (NDArray 3 4 [1, 1, 1, 2, 1, 1, 1, 2, 1, 1, 1, 2 :: u32]) ! i = 1
                     \<and> flat (NDArray 3 4 [7, 4, 4, 7, 7, 4, 0, 7, 7, 4, 4, 7 :: u32]) ! i \<noteq> 0)
            [0..<length (flat (NDArray 3 4 [1, 1, 1, 2, 1, 1, 1, 2, 1, 1, 1, 2 :: u32]))])
       = [7, 4, 4, 7, 4, 7, 4, 4]
   \<and> cell_annot_of (NDArray 3 4 [1, 1, 1, 2, 1, 1, 1, 2, 1, 1, 1, 2])
         (NDArray 3 4 [7, 4, 4, 7, 7, 4, 0, 7, 7, 4, 4, 7]) 1 = Inr (1, 1, 4)
   \<and> count_list [7, 4, 4, 7, 4, 7, 4, 4 :: u32] 7 \<le> count_list [7, 4, 4, 7, 4, 7, 4, 4 :: u32] 4
   \<and> cell_annot_of (NDArray 2 4 [1, 1, 1, 1, 1, 1, 1, 3])
         (NDArray 2 4 [7, 4, 7, 4, 7, 4, 0, 7]) 1 = Inr (1, 0, 4)
   \<and> count_list [7, 4, 7, 4, 7, 4 :: u32] 7 = count_list [7, 4, 7, 4, 7, 4 :: u32] 4
   \<and> (4 :: u32) \<le> 7"
proof -
  let ?A = "NDArray 3 4 [1, 1, 1, 2, 1, 1, 1, 2, 1, 1, 1, 2 :: u32]"
  let ?B = "NDArray 3 4 [7, 4, 4, 7, 7, 4, 0, 7, 7, 4, 4, 7 :: u32]"
  let ?C = "NDArray 2 4 [1, 1, 1, 1, 1, 1, 1, 3 :: u32]"
  let ?D = "NDArray 2 4 [7, 4, 7, 4, 7, 4, 0, 7 :: u32]"
  let ?ts = "[7, 4, 4, 7, 4, 7, 4, 4 :: u32]"
  let ?us = "[7, 4, 7, 4, 7, 4 :: u32]"
  have s1: "shape ?B = shape ?A" by (simp add: shape_def)
  have w1: "wf_array ?B" "wf_array ?A" by (simp_all add: wf_array_def)
  have g1: "?ts = map (\<lambda>i. flat ?B ! i)
                   (filter (\<lambda>i. flat ?A ! i = 1 \<and> flat ?B ! i \<noteq> 0) [0..<length (flat ?A)])"
    by code_simp
  have n1: "?ts \<noteq> []" by simp
  have v1: "cell_annot_of ?A ?B 1 = Inr (1, 1, 4)" by code_simp
  from majority_vote_smallest_on_tie [OF s1 w1 g1 n1] obtain x y t where
    r: "cell_annot_of ?A ?B 1 = Inr (x, y, uint t)"
    and mx: "\<forall>u \<in> set ?ts. count_list ?ts u \<le> count_list ?ts t"
    by blast
  from r v1 have "uint t = 4" by simp
  then have "word_of_int (uint t) = (word_of_int 4 :: u32)" by simp
  then have "t = 4" by simp
  with mx have most: "count_list ?ts 7 \<le> count_list ?ts 4" by simp
  have s2: "shape ?D = shape ?C" by (simp add: shape_def)
  have w2: "wf_array ?D" "wf_array ?C" by (simp_all add: wf_array_def)
  have g2: "?us = map (\<lambda>i. flat ?D ! i)
                   (filter (\<lambda>i. flat ?C ! i = 1 \<and> flat ?D ! i \<noteq> 0) [0..<length (flat ?C)])"
    by code_simp
  have n2: "?us \<noteq> []" by simp
  have v2: "cell_annot_of ?C ?D 1 = Inr (1, 0, 4)" by code_simp
  have eq: "count_list ?us 7 = count_list ?us 4" by simp
  from majority_vote_smallest_on_tie [OF s2 w2 g2 n2] obtain x' y' t' where
    r': "cell_annot_of ?C ?D 1 = Inr (x', y', uint t')"
    and tie: "\<forall>u \<in> set ?us. count_list ?us u = count_list ?us t' \<longrightarrow> t' \<le> u"
    by blast
  from r' v2 have "uint t' = 4" by simp
  then have "word_of_int (uint t') = (word_of_int 4 :: u32)" by simp
  then have "t' = 4" by simp
  with tie eq have least: "(4 :: u32) \<le> 7" by simp
  show ?thesis
    using s1 g1 [symmetric] v1 most v2 eq least by blast
qed

section \<open>What the extraction returns\<close>

text \<open>
  C4. The records come out in the ascending order of the distinct nonzero instance labels:
  the record list is the image of that label list, which is strictly increasing and
  depends only on the set of values in the instance map, not on where they lie.
\<close>

theorem records_follow_ascending_labels:
  assumes "extract_cells inst_map type_map = Inr recs"
  shows "map Inr recs = map (cell_annot_of inst_map type_map) (instance_labels inst_map)
       \<and> sorted (instance_labels inst_map)
       \<and> distinct (instance_labels inst_map)
       \<and> set (instance_labels inst_map) = set (flat inst_map) - {0}
       \<and> (\<forall>im'. set (flat im') = set (flat inst_map)
              \<longrightarrow> instance_labels im' = instance_labels inst_map)"
proof -
  have "map Inr recs = map (cell_annot_of inst_map type_map) (instance_labels inst_map)"
    using assms by (simp add: extract_cells_Inr_iff)
  moreover have "\<forall>im'. set (flat im') = set (flat inst_map)
                   \<longrightarrow> instance_labels im' = instance_labels inst_map"
    using instance_labels_layout by blast
  ultimately show ?thesis
    using instance_labels_sorted instance_labels_distinct instance_labels_set by blast
qed

theorem records_follow_ascending_labels_witness:
  "extract_cells (NDArray 2 2 [9, 9, 2, 5]) (NDArray 2 2 [1, 1, 3, 2])
     = Inr [(0, 1, 3), (1, 1, 2), (0, 0, 1)]
   \<and> instance_labels (NDArray 2 2 [9, 9, 2, 5]) = [2, 5, 9]
   \<and> map Inr [(0, 1, 3), (1, 1, 2), (0, 0, 1)]
       = map (cell_annot_of (NDArray 2 2 [9, 9, 2, 5]) (NDArray 2 2 [1, 1, 3, 2]))
           (instance_labels (NDArray 2 2 [9, 9, 2, 5]))
   \<and> instance_labels (NDArray 2 2 [5, 2, 9, 9]) = instance_labels (NDArray 2 2 [9, 9, 2, 5])"
proof -
  have run: "extract_cells (NDArray 2 2 [9, 9, 2, 5]) (NDArray 2 2 [1, 1, 3, 2])
               = Inr [(0, 1, 3), (1, 1, 2), (0, 0, 1)]"
    by code_simp
  have labels: "instance_labels (NDArray 2 2 [9, 9, 2, 5]) = [2, 5, 9]"
    by code_simp
  have same: "set (flat (NDArray 2 2 [5, 2, 9, 9 :: u32])) = set (flat (NDArray 2 2 [9, 9, 2, 5 :: u32]))"
    by auto
  show ?thesis
    using run labels same records_follow_ascending_labels [OF run] by blast
qed

text \<open>
  C8 fails as stated: these two maps differ in shape, the instance map has no nonzero
  label, and extraction returns the empty record list without any error.
\<close>

theorem shape_mismatch_counterexample:
  "shape (NDArray 1 2 [0, 0 :: u32]) \<noteq> shape (NDArray 1 1 [0 :: u32])
   \<and> extract_cells (NDArray 1 1 [0]) (NDArray 1 2 [0, 0]) = Inr []"
  by code_simp

text \<open>
  C8, as the code has it. There is no shape check: a type map of another shape makes the
  boolean index of line 114 raise IndexError, which happens at the first nonzero label.
  An instance map without a nonzero label never reaches that line and yields the empty
  record list.
\<close>

theorem shape_mismatch_raises_at_first_label:
  assumes "shape type_map \<noteq> shape inst_map"
  shows "extract_cells inst_map type_map =
           (if set (flat inst_map) \<subseteq> {0} then Inr [] else Inl IndexError)"
proof -
  have "instance_labels inst_map = [] \<longleftrightarrow> set (flat inst_map) \<subseteq> {0}"
    using instance_labels_set [of inst_map] by (metis Diff_eq_empty_iff set_empty)
  then show ?thesis using extract_cells_mismatch [OF assms] by simp
qed

theorem shape_mismatch_raises_at_first_label_witness:
  "shape (NDArray 1 2 [3, 3 :: u32]) \<noteq> shape (NDArray 2 2 [0, 4, 0, 0 :: u32])
   \<and> extract_cells (NDArray 2 2 [0, 4, 0, 0]) (NDArray 1 2 [3, 3]) = Inl IndexError"
proof -
  have h: "shape (NDArray 1 2 [3, 3 :: u32]) \<noteq> shape (NDArray 2 2 [0, 4, 0, 0 :: u32])"
    by (simp add: shape_def)
  show ?thesis using h shape_mismatch_raises_at_first_label [OF h] by simp
qed

text \<open>
  C2 fails as stated: the maps have one shape and the instance map has one nonzero
  label, whose only pixel has type 0; extraction raises ValueError and returns no record.
\<close>

theorem one_record_per_label_counterexample:
  "shape (NDArray 1 1 [0 :: u32]) = shape (NDArray 1 1 [1 :: u32])
   \<and> card (set (flat (NDArray 1 1 [1 :: u32])) - {0}) = 1
   \<and> extract_cells (NDArray 1 1 [1]) (NDArray 1 1 [0]) = Inl ValueError"
proof -
  have "extract_cells (NDArray 1 1 [1]) (NDArray 1 1 [0]) = Inl ValueError" by code_simp
  then show ?thesis by (simp add: shape_def)
qed

text \<open>
  C2, as the code has it. With maps of one shape, extraction returns one record per
  distinct nonzero label when every instance covers at least one nonzero type pixel.
  An instance that covers none makes the argmax of line 121 raise ValueError, and no
  record list is returned.
\<close>

theorem one_record_per_typed_label:
  assumes "shape type_map = shape inst_map"
  shows "((\<forall>l \<in> set (instance_labels inst_map). overlap_types inst_map type_map l \<noteq> Inr [])
           \<longrightarrow> (\<exists>recs. extract_cells inst_map type_map = Inr recs
                  \<and> length recs = card (set (flat inst_map) - {0})
                  \<and> map Inr recs
                      = map (cell_annot_of inst_map type_map) (instance_labels inst_map)))
       \<and> ((\<exists>l \<in> set (instance_labels inst_map). overlap_types inst_map type_map l = Inr [])
           \<longrightarrow> extract_cells inst_map type_map = Inl ValueError)"
proof (intro conjI impI)
  assume "\<forall>l \<in> set (instance_labels inst_map). overlap_types inst_map type_map l \<noteq> Inr []"
  from extract_cells_all_typed [OF assms this] obtain recs where
    r: "extract_cells inst_map type_map = Inr recs"
    and m: "map Inr recs = map (cell_annot_of inst_map type_map) (instance_labels inst_map)"
    by blast
  have "length recs = length (instance_labels inst_map)"
    using m by (metis length_map)
  then have "length recs = card (set (flat inst_map) - {0})"
    by (simp add: instance_labels_length)
  with r m show "\<exists>recs. extract_cells inst_map type_map = Inr recs
                  \<and> length recs = card (set (flat inst_map) - {0})
                  \<and> map Inr recs
                      = map (cell_annot_of inst_map type_map) (instance_labels inst_map)"
    by blast
next
  assume "\<exists>l \<in> set (instance_labels inst_map). overlap_types inst_map type_map l = Inr []"
  from extract_cells_untyped [OF assms this]
  show "extract_cells inst_map type_map = Inl ValueError" .
qed

theorem one_record_per_typed_label_witness:
  "shape (NDArray 2 2 [1, 1, 3, 2 :: u32]) = shape (NDArray 2 2 [9, 9, 2, 5 :: u32])
   \<and> extract_cells (NDArray 2 2 [9, 9, 2, 5]) (NDArray 2 2 [1, 1, 3, 2])
       = Inr [(0, 1, 3), (1, 1, 2), (0, 0, 1)]
   \<and> card (set (flat (NDArray 2 2 [9, 9, 2, 5 :: u32])) - {0}) = 3
   \<and> shape (NDArray 1 2 [4, 0 :: u32]) = shape (NDArray 1 2 [1, 2 :: u32])
   \<and> overlap_types (NDArray 1 2 [1, 2]) (NDArray 1 2 [4, 0]) 2 = Inr []
   \<and> extract_cells (NDArray 1 2 [1, 2]) (NDArray 1 2 [4, 0]) = Inl ValueError"
proof -
  have s1: "shape (NDArray 2 2 [1, 1, 3, 2 :: u32]) = shape (NDArray 2 2 [9, 9, 2, 5 :: u32])"
    by (simp add: shape_def)
  have t1: "\<forall>l \<in> set (instance_labels (NDArray 2 2 [9, 9, 2, 5])).
              overlap_types (NDArray 2 2 [9, 9, 2, 5]) (NDArray 2 2 [1, 1, 3, 2]) l \<noteq> Inr []"
    by code_simp
  have run: "extract_cells (NDArray 2 2 [9, 9, 2, 5]) (NDArray 2 2 [1, 1, 3, 2])
               = Inr [(0, 1, 3), (1, 1, 2), (0, 0, 1)]"
    by code_simp
  from one_record_per_typed_label [OF s1] t1 obtain recs where
    "extract_cells (NDArray 2 2 [9, 9, 2, 5]) (NDArray 2 2 [1, 1, 3, 2]) = Inr recs"
    "length recs = card (set (flat (NDArray 2 2 [9, 9, 2, 5 :: u32])) - {0})"
    by blast
  with run have c1: "card (set (flat (NDArray 2 2 [9, 9, 2, 5 :: u32])) - {0}) = 3"
    by simp
  have s2: "shape (NDArray 1 2 [4, 0 :: u32]) = shape (NDArray 1 2 [1, 2 :: u32])"
    by (simp add: shape_def)
  have o2: "overlap_types (NDArray 1 2 [1, 2]) (NDArray 1 2 [4, 0]) 2 = Inr []"
    by code_simp
  have "2 \<in> set (instance_labels (NDArray 1 2 [1, 2]))"
    by code_simp
  with o2 have t2: "\<exists>l \<in> set (instance_labels (NDArray 1 2 [1, 2])).
              overlap_types (NDArray 1 2 [1, 2]) (NDArray 1 2 [4, 0]) l = Inr []"
    by blast
  from one_record_per_typed_label [OF s2] t2 have
    f: "extract_cells (NDArray 1 2 [1, 2]) (NDArray 1 2 [4, 0]) = Inl ValueError"
    by blast
  show ?thesis
    using s1 run c1 s2 o2 f by blast
qed

section \<open>Facts about reading a sample\<close>

lemma py_index_nat: "py_index xs (int i) = (if i < length xs then Inr (xs ! i) else Inl IndexError)"
  by (simp add: py_index_def)

lemma gather_eq:
  "gather xs idxs = (if \<forall>i \<in> set idxs. i < length xs then Inr (map (nth xs) idxs) else Inl IndexError)"
proof (induction idxs)
  case Nil
  then show ?case by simp
next
  case (Cons i idxs)
  then show ?case by (simp add: py_index_nat)
qed

lemma resync_types_eq:
  "resync_types types dets =
     (if length dets \<le> length types then Inr (take (length dets) types) else Inl IndexError)"
proof (cases "length dets \<le> length types")
  case True
  then have "map (nth types) [0..<length dets] = take (length dets) types"
    by (intro nth_equalityI) auto
  then show ?thesis using True by (simp add: resync_types_def gather_eq)
next
  case False
  then have "length types \<in> set [0..<length dets]" by simp
  then have "\<not> (\<forall>i \<in> set [0..<length dets]. i < length types)" by blast
  then show ?thesis using False by (simp add: resync_types_def gather_eq)
qed

lemma getitem_reaches_transform:
  assumes "py_index (images ds) index = Inr p"
    and "cache_images ds (stem p) = Some img"
    and "cache_annotations ds (stem p) = Some cell_annot"
    and "(if normalize_stains ds then normalizer ds img else Inr img) = Inr img1"
    and "transforms ds = Some tf"
    and "tf img1 (map (\<lambda>(x, y, t). (x, y)) cell_annot) = Inr (img2, dets2)"
  shows "getitem ds index =
           (if length dets2 \<le> length cell_annot
            then Inr (img2, dets2, take (length dets2) (map (\<lambda>(x, y, t). t - 1) cell_annot), stem p)
            else Inl IndexError)"
  using assms by (simp add: getitem_def Let_def resync_types_eq)

lemma getitem_Inr_types:
  assumes "getitem ds index = Inr (img, dets, types, name)"
  shows "\<exists>p cell_annot. py_index (images ds) index = Inr p \<and> name = stem p
           \<and> cache_annotations ds (stem p) = Some cell_annot
           \<and> length types = length dets
           \<and> (\<exists>n \<le> length cell_annot. types = take n (map (\<lambda>(x, y, t). t - 1) cell_annot))"
proof -
  from assms obtain p where p: "py_index (images ds) index = Inr p"
    by (cases "py_index (images ds) index") (auto simp: getitem_def)
  from assms p obtain im0 where im0: "cache_images ds (stem p) = Some im0"
    by (cases "cache_images ds (stem p)") (auto simp: getitem_def Let_def)
  from assms p im0 obtain cell_annot where ca: "cache_annotations ds (stem p) = Some cell_annot"
    by (cases "cache_annotations ds (stem p)") (auto simp: getitem_def Let_def)
  from assms p im0 ca obtain img1 where
    n: "(if normalize_stains ds then normalizer ds im0 else Inr im0) = Inr img1"
    by (cases "if normalize_stains ds then normalizer ds im0 else Inr im0")
       (auto simp: getitem_def Let_def)
  show ?thesis
  proof (cases "transforms ds")
    case None
    with assms p im0 ca n have
      "dets = map (\<lambda>(x, y, t). (x, y)) cell_annot"
      "types = map (\<lambda>(x, y, t). t - 1) cell_annot" "name = stem p"
      by (auto simp: getitem_def Let_def)
    then show ?thesis using p ca by (intro exI [of _ p] exI [of _ cell_annot]) auto
  next
    case (Some tf)
    from assms p im0 ca n Some obtain img2 dets2 where
      t: "tf img1 (map (\<lambda>(x, y, t). (x, y)) cell_annot) = Inr (img2, dets2)"
      by (cases "tf img1 (map (\<lambda>(x, y, t). (x, y)) cell_annot)")
         (auto simp: getitem_def Let_def)
    from getitem_reaches_transform [OF p im0 ca n Some t] assms have
      "length dets2 \<le> length cell_annot" "dets = dets2" "name = stem p"
      "types = take (length dets2) (map (\<lambda>(x, y, t). t - 1) cell_annot)"
      by (auto split: if_splits)
    then show ?thesis using p ca by (intro exI [of _ p] exI [of _ cell_annot]) auto
  qed
qed

section \<open>What a sample access returns\<close>

text \<open>
  C10. When the access reaches the transform and the transform returns more keypoints than
  there are cell records, line 161 raises IndexError. A returned tuple therefore has at
  most as many keypoints as records, and as many types as keypoints.
\<close>

theorem extra_keypoints_raise_index_error:
  assumes "py_index (images ds) index = Inr p"
    and "cache_images ds (stem p) = Some img"
    and "cache_annotations ds (stem p) = Some cell_annot"
    and "(if normalize_stains ds then normalizer ds img else Inr img) = Inr img1"
    and "transforms ds = Some tf"
    and "tf img1 (map (\<lambda>(x, y, t). (x, y)) cell_annot) = Inr (img2, dets2)"
  shows "(length cell_annot < length dets2 \<longrightarrow> getitem ds index = Inl IndexError)
       \<and> (\<forall>img' dets' types' name'. getitem ds index = Inr (img', dets', types', name')
             \<longrightarrow> dets' = dets2 \<and> length dets' \<le> length cell_annot
                 \<and> length types' = length dets')"
  using getitem_reaches_transform [OF assms] by (auto split: if_splits)

theorem extra_keypoints_raise_index_error_witness:
  "getitem \<lparr> images = [Path ''a'' ''.png''], annotations = [Path ''a'' ''.npy''],
             cache_images = [''a'' \<mapsto> ()],
             cache_annotations = [''a'' \<mapsto> [(4, 6, 2)]],
             transforms = Some (\<lambda>img kps. Inr (img, kps @ [(0, 0)])),
             normalize_stains = False, normalizer = Inr \<rparr> 0
     = Inl IndexError"
proof -
  let ?tf = "\<lambda>(img :: unit) (kps :: keypoint list). (Inr (img, kps @ [(0, 0)]) :: error + unit \<times> keypoint list)"
  let ?ds = "\<lparr> images = [Path ''a'' ''.png''], annotations = [Path ''a'' ''.npy''],
               cache_images = [''a'' \<mapsto> ()],
               cache_annotations = [''a'' \<mapsto> [(4, 6, 2)]],
               transforms = Some ?tf,
               normalize_stains = False, normalizer = Inr \<rparr>"
  have 1: "py_index (images ?ds) 0 = Inr (Path ''a'' ''.png'')" by (simp add: py_index_def)
  have 2: "cache_images ?ds (stem (Path ''a'' ''.png'')) = Some ()" by simp
  have 3: "cache_annotations ?ds (stem (Path ''a'' ''.png'')) = Some [(4, 6, 2)]" by simp
  have 4: "(if normalize_stains ?ds then normalizer ?ds () else Inr ()) = Inr ()" by simp
  have 5: "transforms ?ds = Some ?tf" by simp
  have 6: "?tf () (map (\<lambda>(x, y, t). (x, y)) [(4, 6, 2)]) = Inr ((), [(4, 6), (0, 0)])" by simp
  from extra_keypoints_raise_index_error [OF 1 2 3 4 5 6] show ?thesis by simp
qed

text \<open>
  C9 fails as stated: before the build, reading sample 0 of a one-image dataset raises
  KeyError, and not the CacheNotReadyError that the claim names.
\<close>

theorem getitem_before_build_counterexample:
  "getitem (init \<lparr> listing = [Path ''a'' ''.png''],
                      image_open = (\<lambda>p. Inr ()),
                      np_load = (\<lambda>p. Inl (External ''missing'')) \<rparr>
                 None None False Inr) 0 = Inl KeyError
   \<and> getitem (init \<lparr> listing = [Path ''a'' ''.png''],
                        image_open = (\<lambda>p. Inr ()),
                        np_load = (\<lambda>p. Inl (External ''missing'')) \<rparr>
                   None None False Inr) 0 \<noteq> Inl CacheNotReadyError"
  by (simp add: getitem_def init_def py_index_def)

text \<open>
  C9, as the code has it. Right after construction both caches are empty, and the source
  has no readiness check: reading any sample in range fails at the dictionary lookup of
  line 144 with KeyError. \<open>getitem\<close> has no access to the files, so it cannot extract
  on demand, and no tuple is returned.
\<close>

theorem getitem_before_build_raises:
  assumes "0 \<le> index" and "index < int (length (images (init fs filelist tf ns norm)))"
  shows "getitem (init fs filelist tf ns norm) index = Inl KeyError"
proof -
  let ?ds = "init fs filelist tf ns norm"
  have "py_index (images ?ds) index = Inr (images ?ds ! nat index)"
    using assms by (simp add: py_index_def)
  moreover have "cache_images ?ds = Map.empty"
    by (simp add: init_def Let_def)
  ultimately show ?thesis by (simp add: getitem_def Let_def)
qed

theorem getitem_before_build_raises_witness:
  "(0 :: int) \<le> 0
   \<and> 0 < int (length (images (init \<lparr> listing = [Path ''a'' ''.png''],
                                      image_open = (\<lambda>p. Inr ()),
                                      np_load = (\<lambda>p. Inl (External ''missing'')) \<rparr>
                               None None False Inr)))
   \<and> getitem (init \<lparr> listing = [Path ''a'' ''.png''],
                      image_open = (\<lambda>p. Inr ()),
                      np_load = (\<lambda>p. Inl (External ''missing'')) \<rparr>
                 None None False Inr) 0 = Inl KeyError"
proof -
  let ?fs = "\<lparr> listing = [Path ''a'' ''.png''],
               image_open = (\<lambda>p. (Inr () :: error + unit)),
               np_load = (\<lambda>p. (Inl (External ''missing'') :: error + annotation)) \<rparr>"
  have a: "(0 :: int) \<le> 0" by simp
  have b: "0 < int (length (images (init ?fs None None False Inr)))"
    by (simp add: init_def)
  from getitem_before_build_raises [OF a b] a b show ?thesis by simp
qed

text \<open>
  C1, evaluated. The transform drops keypoint 0 of three. The two survivors are the
  records of raw types 2 and 3, so their 0-based types are 1 and 2. Line 161 indexes the
  type list by the position in the surviving list, and returns the first two types, 0
  and 1.
\<close>

theorem resync_returns_prefix_of_types:
  "getitem \<lparr> images = [Path ''a'' ''.png''], annotations = [Path ''a'' ''.npy''],
             cache_images = [''a'' \<mapsto> ()],
             cache_annotations = [''a'' \<mapsto> [(0, 0, 1), (5, 5, 2), (9, 9, 3)]],
             transforms = Some (\<lambda>img kps. Inr (img, tl kps)),
             normalize_stains = False, normalizer = Inr \<rparr> 0
     = Inr ((), [(5, 5), (9, 9)], [0, 1], ''a'')
   \<and> map (\<lambda>(x, y, t). t - 1) (tl ([(0, 0, 1), (5, 5, 2), (9, 9, 3)] :: cell_record list)) = [1, 2]"
  by (simp add: getitem_def py_index_def resync_types_eq)

section \<open>Stored types\<close>

lemma load_cell_annot_types_pos:
  assumes "load_cell_annot fs annot_path = Inr recs" and "r \<in> set recs"
  shows "1 \<le> snd (snd r)"
proof -
  from assms(1) obtain im tm where "extract_cells im tm = Inr recs"
    by (auto simp: load_cell_annot_def split: sum.splits option.splits)
  then show ?thesis using assms(2) extract_cells_types_pos by blast
qed

lemma cache_loop_types_pos:
  assumes "\<forall>name recs. cache_annotations ds name = Some recs \<longrightarrow> (\<forall>r \<in> set recs. 1 \<le> snd (snd r))"
    and "cache_loop fs ps ds = (err, ds')"
  shows "\<forall>name recs. cache_annotations ds' name = Some recs \<longrightarrow> (\<forall>r \<in> set recs. 1 \<le> snd (snd r))"
  using assms
proof (induction ps arbitrary: ds)
  case Nil
  then show ?case by simp
next
  case (Cons pr ps)
  obtain ip ap where pr: "pr = (ip, ap)" by (cases pr)
  show ?case
  proof (cases "image_open fs ip")
    case (Inl e)
    with Cons.prems pr show ?thesis by simp
  next
    case (Inr img)
    let ?ds1 = "ds\<lparr>cache_images := (cache_images ds)(stem ip \<mapsto> img)\<rparr>"
    show ?thesis
    proof (cases "load_cell_annot fs ap")
      case (Inl e)
      with Cons.prems pr Inr have "ds' = ?ds1" by (simp add: Let_def)
      then show ?thesis using Cons.prems(1) by simp
    next
      case ca: (Inr cell_annot)
      let ?ds2 = "?ds1\<lparr>cache_annotations := (cache_annotations ?ds1)(stem ip \<mapsto> cell_annot)\<rparr>"
      have run: "cache_loop fs ps ?ds2 = (err, ds')"
        using Cons.prems(2) pr Inr ca by (simp add: Let_def)
      have "\<forall>r \<in> set cell_annot. 1 \<le> snd (snd r)"
        using load_cell_annot_types_pos [OF ca] by blast
      then have inv2: "\<forall>name recs. cache_annotations ?ds2 name = Some recs
                         \<longrightarrow> (\<forall>r \<in> set recs. 1 \<le> snd (snd r))"
        using Cons.prems(1) by auto
      from Cons.IH [OF inv2 run] show ?thesis .
    qed
  qed
qed

lemma getitem_types_nonneg:
  assumes "\<forall>name recs. cache_annotations ds name = Some recs \<longrightarrow> (\<forall>r \<in> set recs. 1 \<le> snd (snd r))"
    and "getitem ds index = Inr (img, dets, types, name)"
    and "t \<in> set types"
  shows "0 \<le> t"
proof -
  from getitem_Inr_types [OF assms(2)] obtain p cell_annot n where
    ca: "cache_annotations ds (stem p) = Some cell_annot"
    and ty: "types = take n (map (\<lambda>(x, y, t). t - 1) cell_annot)"
    by blast
  from assms(3) ty have "t \<in> set (map (\<lambda>(x, y, t). t - 1) cell_annot)"
    by (metis in_set_takeD)
  then obtain r where r: "r \<in> set cell_annot" "t = snd (snd r) - 1"
    by (auto simp: case_prod_beta)
  then have "1 \<le> snd (snd r)" using assms(1) ca by blast
  then show ?thesis using r by simp
qed

text \<open>
  C5. A record that the extraction returns has a raw type of at least 1, since the vote
  is over nonzero type pixels only. The build keeps that true of every stored record
  (the caches start empty), and then every type that a sample access returns, being a
  stored type minus 1, is at least 0.
\<close>

theorem stored_types_at_least_one:
  assumes "\<forall>name recs. cache_annotations ds name = Some recs \<longrightarrow> (\<forall>r \<in> set recs. 1 \<le> snd (snd r))"
    and "cache_dataset fs ds = (err, ds')"
  shows "(\<forall>inst_map type_map recs. extract_cells inst_map type_map = Inr recs
            \<longrightarrow> (\<forall>r \<in> set recs. 1 \<le> snd (snd r)))
       \<and> (\<forall>name recs. cache_annotations ds' name = Some recs
            \<longrightarrow> (\<forall>r \<in> set recs. 1 \<le> snd (snd r)))
       \<and> (\<forall>index img dets types name. getitem ds' index = Inr (img, dets, types, name)
            \<longrightarrow> (\<forall>t \<in> set types. 0 \<le> t))"
proof -
  have a: "\<forall>inst_map type_map recs. extract_cells inst_map type_map = Inr recs
            \<longrightarrow> (\<forall>r \<in> set recs. 1 \<le> snd (snd r))"
    using extract_cells_types_pos by blast
  have b: "\<forall>name recs. cache_annotations ds' name = Some recs
            \<longrightarrow> (\<forall>r \<in> set recs. 1 \<le> snd (snd r))"
    using cache_loop_types_pos [OF assms(1)] assms(2) unfolding cache_dataset_def by blast
  have c: "\<forall>index img dets types name. getitem ds' index = Inr (img, dets, types, name)
            \<longrightarrow> (\<forall>t \<in> set types. 0 \<le> t)"
    using getitem_types_nonneg [OF b] by blast
  from a b c show ?thesis by blast
qed

theorem stored_types_at_least_one_witness:
  "getitem (snd (cache_dataset
       \<lparr> listing = [Path ''a'' ''.png''],
         image_open = (\<lambda>p. Inr ()),
         np_load = (\<lambda>p. Inr [''inst_map'' \<mapsto> NDArray 2 2 [1, 1, 2, 2],
                              ''type_map'' \<mapsto> NDArray 2 2 [3, 3, 7, 7]]) \<rparr>
       (init \<lparr> listing = [Path ''a'' ''.png''],
               image_open = (\<lambda>p. Inr ()),
               np_load = (\<lambda>p. Inr [''inst_map'' \<mapsto> NDArray 2 2 [1, 1, 2, 2],
                                    ''type_map'' \<mapsto> NDArray 2 2 [3, 3, 7, 7]]) \<rparr>
          None None False Inr))) 0
     = Inr ((), [(0, 0), (0, 1)], [2, 6], ''a'')
   \<and> (0 :: int) \<le> 2 \<and> (0 :: int) \<le> 6"
proof -
  let ?fs = "\<lparr> listing = [Path ''a'' ''.png''],
               image_open = (\<lambda>p. (Inr () :: error + unit)),
               np_load = (\<lambda>p. (Inr [''inst_map'' \<mapsto> NDArray 2 2 [1, 1, 2, 2],
                                     ''type_map'' \<mapsto> NDArray 2 2 [3, 3, 7, 7]]
                                 :: error + annotation)) \<rparr>"
  let ?ds = "init ?fs None None False Inr"
  have ex: "extract_cells (astype_uint32 (NDArray 2 2 [1, 1, 2, 2])) (astype_uint32 (NDArray 2 2 [3, 3, 7, 7]))
              = Inr [(0, 0, 3), (0, 1, 7)]"
    by code_simp
  have h1: "\<forall>name recs. cache_annotations ?ds name = Some recs
              \<longrightarrow> (\<forall>r \<in> set recs. 1 \<le> snd (snd r))"
    by (simp add: init_def)
  have h2: "cache_dataset ?fs ?ds = (fst (cache_dataset ?fs ?ds), snd (cache_dataset ?fs ?ds))"
    by simp
  have ld: "load_cell_annot ?fs ap = Inr [(0, 0, 3), (0, 1, 7)]" for ap
    using ex by (simp add: load_cell_annot_def)
  have cd: "snd (cache_dataset ?fs ?ds)
              = ?ds\<lparr>cache_images := [''a'' \<mapsto> ()],
                     cache_annotations := [''a'' \<mapsto> [(0, 0, 3), (0, 1, 7)]]\<rparr>"
    by (simp add: cache_dataset_def init_def ld)
  have ev: "getitem (snd (cache_dataset ?fs ?ds)) 0 = Inr ((), [(0, 0), (0, 1)], [2, 6], ''a'')"
    unfolding cd by (simp add: init_def getitem_def py_index_def)
  from stored_types_at_least_one [OF h1 h2] ev have "\<forall>t \<in> set [2, 6 :: int]. 0 \<le> t"
    by blast
  then have "(0 :: int) \<le> 2 \<and> (0 :: int) \<le> 6" by simp
  with ev show ?thesis by blast
qed

section \<open>Collation\<close>

lemma torch_stack_same_shape:
  assumes "ts \<noteq> []" and "\<forall>t \<in> set ts. tshape t = sh"
  shows "torch_stack ts = Inr (Tensor (length ts # sh) (concat (map tdata ts)))"
proof -
  from assms(1) obtain t rest where ts: "ts = t # rest" by (cases ts) auto
  with assms(2) have "tshape t = sh" "list_all (\<lambda>u. tshape u = tshape t) rest"
    by (auto simp: list_all_iff)
  then show ?thesis by (simp add: torch_stack_def ts)
qed

text \<open>
  C7 fails as stated for N = 0: the empty batch raises ValueError.
\<close>

theorem collate_empty_batch_counterexample:
  "collate_batch ([] :: (int tensor \<times> keypoint list \<times> int list \<times> string) list) = Inl ValueError"
  by (simp add: collate_batch_def)

text \<open>
  C7, as the code has it. A batch of N samples, N at least 1, whose images have one
  shape collates to the N detection lists, the N type lists and the N names, each in
  batch order and untouched, and to an image tensor with N as its leading dimension. The
  empty batch raises ValueError at the unpacking of line 183.
\<close>

theorem collate_keeps_samples_aligned:
  assumes "batch \<noteq> []" and "\<forall>s \<in> set batch. tshape (fst s) = sh"
  shows "\<exists>stacked detections_list types_list names.
           collate_batch batch = Inr (stacked, detections_list, types_list, names)
         \<and> length detections_list = length batch
         \<and> length types_list = length batch
         \<and> length names = length batch
         \<and> (\<forall>i < length batch. detections_list ! i = fst (snd (batch ! i))
                \<and> types_list ! i = fst (snd (snd (batch ! i)))
                \<and> names ! i = snd (snd (snd (batch ! i))))
         \<and> tshape stacked = length batch # sh"
proof -
  let ?imgs = "map (\<lambda>(i, d, t, n). i) batch"
  have "?imgs \<noteq> []" using assms(1) by simp
  moreover have "\<forall>t \<in> set ?imgs. tshape t = sh" using assms(2) by auto
  ultimately have st: "torch_stack ?imgs = Inr (Tensor (length ?imgs # sh) (concat (map tdata ?imgs)))"
    by (rule torch_stack_same_shape)
  from assms(1) obtain s rest where b: "batch = s # rest" by (cases batch) auto
  have "collate_batch batch =
          Inr (Tensor (length batch # sh) (concat (map tdata ?imgs)),
               map (\<lambda>(i, d, t, n). d) batch, map (\<lambda>(i, d, t, n). t) batch,
               map (\<lambda>(i, d, t, n). n) batch)"
    using st unfolding collate_batch_def b by (simp add: Let_def)
  then show ?thesis
    by (intro exI conjI) (assumption | simp add: case_prod_beta)+
qed

theorem collate_keeps_samples_aligned_witness:
  "collate_batch
     ([(Tensor [2] [10, 11], [(1, 1), (2, 2)], [0, 3], ''a''),
       (Tensor [2] [20, 21], [], [], ''b''),
       (Tensor [2] [30, 31], [(1, 1), (2, 2), (3, 3), (4, 4), (5, 5)], [0, 1, 2, 3, 4], ''c''),
       (Tensor [2] [40, 41], [(7, 7)], [5], ''d'')]
      :: (int tensor \<times> keypoint list \<times> int list \<times> string) list)
   = Inr (Tensor [4, 2] [10, 11, 20, 21, 30, 31, 40, 41],
          [[(1, 1), (2, 2)], [], [(1, 1), (2, 2), (3, 3), (4, 4), (5, 5)], [(7, 7)]],
          [[0, 3], [], [0, 1, 2, 3, 4], [5]],
          [''a'', ''b'', ''c'', ''d''])
   \<and> (\<exists>stacked detections_list types_list names.
         collate_batch
           ([(Tensor [2] [10, 11], [(1, 1), (2, 2)], [0, 3], ''a''),
             (Tensor [2] [20, 21], [], [], ''b''),
             (Tensor [2] [30, 31], [(1, 1), (2, 2), (3, 3), (4, 4), (5, 5)], [0, 1, 2, 3, 4], ''c''),
             (Tensor [2] [40, 41], [(7, 7)], [5], ''d'')]
            :: (int tensor \<times> keypoint list \<times> int list \<times> string) list)
           = Inr (stacked, detections_list, types_list, names)
         \<and> length detections_list = 4 \<and> length types_list = 4 \<and> length names = 4
         \<and> tshape stacked = [4, 2])"
proof -
  let ?batch = "[(Tensor [2] [10, 11], [(1, 1), (2, 2)], [0, 3], ''a''),
      (Tensor [2] [20, 21], [], [], ''b''),
      (Tensor [2] [30, 31], [(1, 1), (2, 2), (3, 3), (4, 4), (5, 5)], [0, 1, 2, 3, 4], ''c''),
      (Tensor [2] [40, 41], [(7, 7)], [5], ''d'')]
     :: (int tensor \<times> keypoint list \<times> int list \<times> string) list"
  have ne: "?batch \<noteq> []" by simp
  have sh: "\<forall>s \<in> set ?batch. tshape (fst s) = [2]" by simp
  have n: "length ?batch = 4" by simp
  have ev: "collate_batch ?batch
              = Inr (Tensor [4, 2] [10, 11, 20, 21, 30, 31, 40, 41],
                     [[(1, 1), (2, 2)], [], [(1, 1), (2, 2), (3, 3), (4, 4), (5, 5)], [(7, 7)]],
                     [[0, 3], [], [0, 1, 2, 3, 4], [5]],
                     [''a'', ''b'', ''c'', ''d''])"
    by (simp add: collate_batch_def torch_stack_def)
  from collate_keeps_samples_aligned [OF ne sh] obtain stacked dl tl nm where
    "collate_batch ?batch = Inr (stacked, dl, tl, nm)"
    "length dl = length ?batch" "length tl = length ?batch" "length nm = length ?batch"
    "tshape stacked = length ?batch # [2]"
    by blast
  then have "collate_batch ?batch = Inr (stacked, dl, tl, nm)
      \<and> length dl = 4 \<and> length tl = 4 \<and> length nm = 4 \<and> tshape stacked = [4, 2]"
    unfolding n by simp
  then show ?thesis using ev by blast
qed

section \<open>Rebuilding the cache\<close>

lemma map_add_twice: "(m ++ w) ++ w = m ++ w"
  by (rule ext) (simp add: map_add_def split: option.split)

lemma map_upd_as_add: "m(k \<mapsto> v) ++ w = m ++ ([k \<mapsto> v] ++ w)"
  by (rule ext) (simp add: map_add_def split: option.split)

lemma cache_loop_writes:
  "\<exists>e I A. \<forall>ds. cache_loop fs ps ds =
      (e, ds\<lparr>cache_images := cache_images ds ++ I,
             cache_annotations := cache_annotations ds ++ A\<rparr>)"
proof (induction ps)
  case Nil
  have "\<forall>ds. cache_loop fs [] ds =
          (None, ds\<lparr>cache_images := cache_images ds ++ Map.empty,
                    cache_annotations := cache_annotations ds ++ Map.empty\<rparr>)"
    by simp
  then show ?case by blast
next
  case (Cons pr ps)
  obtain ip ap where pr: "pr = (ip, ap)" by (cases pr)
  from Cons.IH obtain e' I' A' where
    ih: "\<And>ds. cache_loop fs ps ds =
           (e', ds\<lparr>cache_images := cache_images ds ++ I',
                   cache_annotations := cache_annotations ds ++ A'\<rparr>)"
    by blast
  show ?case
  proof (cases "image_open fs ip")
    case (Inl e)
    then have "\<forall>ds. cache_loop fs (pr # ps) ds =
          (Some e, ds\<lparr>cache_images := cache_images ds ++ Map.empty,
                      cache_annotations := cache_annotations ds ++ Map.empty\<rparr>)"
      by (simp add: pr)
    then show ?thesis by blast
  next
    case (Inr img)
    show ?thesis
    proof (cases "load_cell_annot fs ap")
      case (Inl e)
      with Inr have "\<forall>ds. cache_loop fs (pr # ps) ds =
          (Some e, ds\<lparr>cache_images := cache_images ds ++ [stem ip \<mapsto> img],
                      cache_annotations := cache_annotations ds ++ Map.empty\<rparr>)"
        by (simp add: pr)
      then show ?thesis by blast
    next
      case ca: (Inr cell_annot)
      have "cache_loop fs (pr # ps) ds =
          (e', ds\<lparr>cache_images := cache_images ds ++ ([stem ip \<mapsto> img] ++ I'),
                  cache_annotations := cache_annotations ds ++ ([stem ip \<mapsto> cell_annot] ++ A')\<rparr>)"
        for ds
      proof -
        let ?d2 = "ds\<lparr>cache_images := (cache_images ds)(stem ip \<mapsto> img),
                       cache_annotations := (cache_annotations ds)(stem ip \<mapsto> cell_annot)\<rparr>"
        have a: "(cache_images ds)(stem ip \<mapsto> img) ++ I'
                   = cache_images ds ++ ([stem ip \<mapsto> img] ++ I')"
          by (rule map_upd_as_add)
        have b: "(cache_annotations ds)(stem ip \<mapsto> cell_annot) ++ A'
                   = cache_annotations ds ++ ([stem ip \<mapsto> cell_annot] ++ A')"
          by (rule map_upd_as_add)
        have sel1: "cache_images ?d2 = (cache_images ds)(stem ip \<mapsto> img)" by simp
        have sel2: "cache_annotations ?d2 = (cache_annotations ds)(stem ip \<mapsto> cell_annot)"
          by simp
        have upd: "?d2\<lparr>cache_images := X, cache_annotations := Y\<rparr>
                     = ds\<lparr>cache_images := X, cache_annotations := Y\<rparr>" for X Y
          by simp
        have "cache_loop fs (pr # ps) ds = cache_loop fs ps ?d2"
          using Inr ca by (simp add: pr)
        also have "\<dots> = (e', ?d2\<lparr>cache_images := cache_images ?d2 ++ I',
                                   cache_annotations := cache_annotations ?d2 ++ A'\<rparr>)"
          by (rule ih)
        also have "\<dots> = (e', ds\<lparr>cache_images := cache_images ds ++ ([stem ip \<mapsto> img] ++ I'),
                  cache_annotations := cache_annotations ds ++ ([stem ip \<mapsto> cell_annot] ++ A')\<rparr>)"
          unfolding sel1 sel2 a b by (rule arg_cong [OF upd])
        finally show ?thesis .
      qed
      then have "\<forall>ds. cache_loop fs (pr # ps) ds =
          (e', ds\<lparr>cache_images := cache_images ds ++ ([stem ip \<mapsto> img] ++ I'),
                  cache_annotations := cache_annotations ds ++ ([stem ip \<mapsto> cell_annot] ++ A')\<rparr>)"
        by blast
      then show ?thesis by blast
    qed
  qed
qed

text \<open>
  C6. A second build on the same files changes nothing: it ends the same way (no
  exception, or the same one at the same sample) and leaves both caches, keys and
  values, as the first build left them, since every write stores what the first build
  stored under the same key.
\<close>

theorem cache_dataset_idempotent:
  "cache_dataset fs (snd (cache_dataset fs ds)) = cache_dataset fs ds"
proof -
  let ?ps = "zip (images ds) (annotations ds)"
  from cache_loop_writes [of fs ?ps] obtain e I A where
    w: "\<And>d. cache_loop fs ?ps d =
          (e, d\<lparr>cache_images := cache_images d ++ I,
                 cache_annotations := cache_annotations d ++ A\<rparr>)"
    by blast
  let ?ds1 = "ds\<lparr>cache_images := cache_images ds ++ I,
                  cache_annotations := cache_annotations ds ++ A\<rparr>"
  have first: "cache_dataset fs ds = (e, ?ds1)"
    by (simp add: cache_dataset_def w)
  have "cache_dataset fs ?ds1 = cache_loop fs ?ps ?ds1"
    by (simp add: cache_dataset_def)
  also have "\<dots> = (e, ?ds1)"
    by (simp add: w map_add_twice)
  finally show ?thesis by (simp add: first)
qed

theorem cache_dataset_idempotent_witness:
  "cache_dataset
     \<lparr> listing = [Path ''a'' ''.png''],
       image_open = (\<lambda>p. Inr ()),
       np_load = (\<lambda>p. Inr [''inst_map'' \<mapsto> NDArray 2 2 [1, 1, 2, 2],
                            ''type_map'' \<mapsto> NDArray 2 2 [3, 3, 7, 7]]) \<rparr>
     (snd (cache_dataset
        \<lparr> listing = [Path ''a'' ''.png''],
          image_open = (\<lambda>p. Inr ()),
          np_load = (\<lambda>p. Inr [''inst_map'' \<mapsto> NDArray 2 2 [1, 1, 2, 2],
                               ''type_map'' \<mapsto> NDArray 2 2 [3, 3, 7, 7]]) \<rparr>
        (init \<lparr> listing = [Path ''a'' ''.png''],
                image_open = (\<lambda>p. Inr ()),
                np_load = (\<lambda>p. Inr [''inst_map'' \<mapsto> NDArray 2 2 [1, 1, 2, 2],
                                     ''type_map'' \<mapsto> NDArray 2 2 [3, 3, 7, 7]]) \<rparr>
           None None False Inr)))
   = (None,
      init \<lparr> listing = [Path ''a'' ''.png''],
             image_open = (\<lambda>p. Inr ()),
             np_load = (\<lambda>p. Inr [''inst_map'' \<mapsto> NDArray 2 2 [1, 1, 2, 2],
                                  ''type_map'' \<mapsto> NDArray 2 2 [3, 3, 7, 7]]) \<rparr>
        None None False Inr
      \<lparr> cache_images := [''a'' \<mapsto> ()],
        cache_annotations := [''a'' \<mapsto> [(0, 0, 3), (0, 1, 7)]] \<rparr>)"
proof -
  let ?fs = "\<lparr> listing = [Path ''a'' ''.png''],
               image_open = (\<lambda>p. (Inr () :: error + unit)),
               np_load = (\<lambda>p. (Inr [''inst_map'' \<mapsto> NDArray 2 2 [1, 1, 2, 2],
                                     ''type_map'' \<mapsto> NDArray 2 2 [3, 3, 7, 7]]
                                 :: error + annotation)) \<rparr>"
  let ?ds = "init ?fs None None False Inr"
  have ex: "extract_cells (astype_uint32 (NDArray 2 2 [1, 1, 2, 2]))
              (astype_uint32 (NDArray 2 2 [3, 3, 7, 7])) = Inr [(0, 0, 3), (0, 1, 7)]"
    by code_simp
  have ld: "load_cell_annot ?fs ap = Inr [(0, 0, 3), (0, 1, 7)]" for ap
    using ex by (simp add: load_cell_annot_def)
  have once: "cache_dataset ?fs ?ds
                = (None, ?ds\<lparr>cache_images := [''a'' \<mapsto> ()],
                             cache_annotations := [''a'' \<mapsto> [(0, 0, 3), (0, 1, 7)]]\<rparr>)"
    by (simp add: cache_dataset_def init_def ld)
  from cache_dataset_idempotent [of ?fs ?ds] once show ?thesis by simp
qed

end
